theory Spec2Isabelle
  imports Main "HOL-Library.Word"
begin

section \<open>C strings and the Path data model of pathlib.h\<close>

text \<open>
  A C string is modelled by the list of its bytes before the terminating NUL; reaching the
  end of the list is reading the terminator. The two separators the library knows are
  the slash and the backslash.
\<close>

definition BSLASH :: char where
  "BSLASH = CHR 0x5C"

definition SLASH :: char where
  "SLASH = CHR ''/''"

definition is_sep :: "char \<Rightarrow> bool" where
  "is_sep c \<longleftrightarrow> c = BSLASH \<or> c = SLASH"

text \<open>
  \<^verbatim>\<open>struct Path { const char** parts; unsigned short size; unsigned short capacity; }\<close>.
  The field \<open>parts\<close> is the allocated array; its live entries are the first \<open>psize\<close>
  ones. A cell of a fresh allocation that was never stored to is written \<open>[]\<close> here; the
  code never reads such a cell. The two counters are 16-bit and wrap around.
\<close>

record Path =
  parts :: "string list"
  psize :: "16 word"
  pcapacity :: "16 word"

definition segments :: "Path \<Rightarrow> string list" where
  "segments path = take (unat (psize path)) (parts path)"

text \<open>The first loop of \<^verbatim>\<open>pathlib_from_str\<close>: one part, plus one for each separator.\<close>

fun count_parts :: "string \<Rightarrow> nat \<Rightarrow> nat" where
  "count_parts [] part_count = part_count"
| "count_parts (c # temp) part_count =
     count_parts temp (if is_sep c then part_count + 1 else part_count)"

text \<open>\<^verbatim>\<open>path.parts[path.size++] = start\<close>\<close>

definition store_part :: "Path \<Rightarrow> string \<Rightarrow> Path" where
  "store_part path start =
     path\<lparr>parts := (parts path)[unat (psize path) := start], psize := psize path + 1\<rparr>"

text \<open>
  The second loop of \<^verbatim>\<open>pathlib_from_str\<close>: \<open>start\<close> is the text between the last
  separator and the cursor; a separator closes it and stores it, and so does the end of
  the string.
\<close>

fun split_loop :: "string \<Rightarrow> string \<Rightarrow> Path \<Rightarrow> Path" where
  "split_loop [] start path = store_part path start"
| "split_loop (c # temp) start path =
     (if is_sep c then split_loop temp [] (store_part path start)
      else split_loop temp (start @ [c]) path)"

definition pathlib_from_str :: "string \<Rightarrow> Path" where
  "pathlib_from_str instr =
     (let part_count = count_parts instr 1
      in split_loop instr []
           \<lparr>parts = replicate part_count [], psize = 0, pcapacity = of_nat part_count\<rparr>)"

text \<open>
  \<^verbatim>\<open>path->capacity == 0 ? 4 : (int)(path->capacity*1.5 + 1)\<close>, stored back into an
  unsigned short.
\<close>

definition grow_capacity :: "16 word \<Rightarrow> 16 word" where
  "grow_capacity c = (if c = 0 then 4 else of_nat ((3 * unat c) div 2 + 1))"

text \<open>
  \<^verbatim>\<open>pathlib_add_part\<close> stores the pointer it is given, with no look at the text. The
  result is \<open>None\<close> where the C code writes outside the array it has: the grown capacity
  wrapped around below the size, or the array is shorter than the size says.
\<close>

definition pathlib_add_part :: "Path \<Rightarrow> string \<Rightarrow> Path option" where
  "pathlib_add_part path part =
     (if pcapacity path \<le> psize path then
        (let cap = grow_capacity (pcapacity path); n = unat (psize path)
         in if n < unat cap \<and> n \<le> length (parts path)
            then Some \<lparr>parts = take n (parts path) @ part # replicate (unat cap - n - 1) [],
                       psize = psize path + 1, pcapacity = cap\<rparr>
            else None)
      else if unat (psize path) < length (parts path)
           then Some (store_part path part)
           else None)"

definition pathlib_copy :: "Path \<Rightarrow> Path option" where
  "pathlib_copy path =
     (let n = unat (psize path); cap = unat (pcapacity path)
      in if n \<le> cap \<and> n \<le> length (parts path)
         then Some \<lparr>parts = take n (parts path) @ replicate (cap - n) [],
                    psize = psize path, pcapacity = pcapacity path\<rparr>
         else None)"

text \<open>The two loops of \<^verbatim>\<open>pathlib_joinpath\<close> call \<^verbatim>\<open>pathlib_add_part\<close> once per live part.\<close>

fun add_parts :: "Path \<Rightarrow> string list \<Rightarrow> Path option" where
  "add_parts ret [] = Some ret"
| "add_parts ret (part # rest) =
     (case pathlib_add_part ret part of None \<Rightarrow> None | Some ret' \<Rightarrow> add_parts ret' rest)"

definition empty_Path :: Path where
  "empty_Path = \<lparr>parts = [], psize = 0, pcapacity = 0\<rparr>"

definition pathlib_joinpath :: "Path \<Rightarrow> Path \<Rightarrow> Path option" where
  "pathlib_joinpath path other =
     (if unat (psize path) \<le> length (parts path) \<and> unat (psize other) \<le> length (parts other)
      then (case add_parts empty_Path (segments path) of
              None \<Rightarrow> None
            | Some ret \<Rightarrow> add_parts ret (segments other))
      else None)"

definition pathlib_parent :: "Path \<Rightarrow> Path option" where
  "pathlib_parent path =
     (if psize path = 1 then Some \<lparr>parts = [''.'', []], psize = 1, pcapacity = 2\<rparr>
      else if 0 < psize path then
        (let n = unat (psize path) - 1; cap = unat (pcapacity path)
         in if n \<le> cap \<and> n \<le> length (parts path)
            then Some \<lparr>parts = take n (parts path) @ replicate (cap - n) [],
                       psize = psize path - 1, pcapacity = pcapacity path\<rparr>
            else None)
      else Some empty_Path)"

text \<open>
  \<^verbatim>\<open>pathlib_to_str\<close>: every live part is copied into the region followed by a slash, and
  the terminator is then stored at \<open>total_size\<close>, over the last slash.
\<close>

fun copy_parts :: "string list \<Rightarrow> string \<Rightarrow> string" where
  "copy_parts [] region = region"
| "copy_parts (part # rest) region = copy_parts rest (region @ part @ [SLASH])"

definition pathlib_to_str :: "Path \<Rightarrow> string" where
  "pathlib_to_str path =
     (let live = segments path;
          total_size = sum_list (map length live)
                       + (if 0 < psize path then unat (psize path) - 1 else 0)
      in if psize path = 0 then [] else take total_size (copy_parts live []))"

section \<open>Reference notions for the statements about paths\<close>

text \<open>The segments of a string: the maximal runs between separators.\<close>

fun split_at_seps :: "string \<Rightarrow> string \<Rightarrow> string list" where
  "split_at_seps [] cur = [cur]"
| "split_at_seps (c # cs) cur =
     (if is_sep c then cur # split_at_seps cs [] else split_at_seps cs (cur @ [c]))"

definition no_empty_segment :: "string \<Rightarrow> bool" where
  "no_empty_segment s \<longleftrightarrow> list_all (\<lambda>seg. seg \<noteq> []) (split_at_seps s [])"

definition single_style :: "string \<Rightarrow> bool" where
  "single_style s \<longleftrightarrow> \<not> (BSLASH \<in> set s \<and> SLASH \<in> set s)"

definition normalize_seps :: "string \<Rightarrow> string" where
  "normalize_seps s = map (\<lambda>c. if c = BSLASH then SLASH else c) s"

definition sep_free :: "string \<Rightarrow> bool" where
  "sep_free seg \<longleftrightarrow> list_all (\<lambda>c. \<not> is_sep c) seg"


text \<open>A string of 65536 one-letter segments, for the 16-bit part counter.\<close>

definition long_path :: string where
  "long_path = concat (replicate 65535 ''a/'') @ ''a''"

section \<open>The wildcard matcher\<close>

text \<open>
  What the matcher takes from the compiler and the C library: whether plain \<^verbatim>\<open>char\<close> is
  signed, whether \<^verbatim>\<open>MB_CUR_MAX\<close> is 1, \<^verbatim>\<open>mbtowc\<close> (the length it returns and the wide
  character it stores, for the bytes it is given) and \<^verbatim>\<open>iswctype\<close> (applied to the number
  that \<^verbatim>\<open>pathlib__wctype\<close> returns). \<^verbatim>\<open>size_t\<close> has 64 bits.
\<close>

record libc =
  char_signed :: bool
  mb_cur_max_one :: bool
  mbtowc :: "string \<Rightarrow> int \<times> int"
  iswctype :: "int \<Rightarrow> nat \<Rightarrow> bool"

definition NUL :: char where
  "NUL = CHR 0x00"

definition byte_at :: "string \<Rightarrow> nat \<Rightarrow> char" where
  "byte_at s k = (if k < length s then s ! k else NUL)"

definition uchar :: "char \<Rightarrow> int" where
  "uchar c = of_char c"

definition char_val :: "libc \<Rightarrow> char \<Rightarrow> int" where
  "char_val lc c = (if char_signed lc \<and> 128 \<le> uchar c then uchar c - 256 else uchar c)"

definition SIZE_MAX :: nat where
  "SIZE_MAX = 2 ^ 64 - 1"

definition size_sub :: "nat \<Rightarrow> nat \<Rightarrow> nat" where
  "size_sub a b = (if b \<le> a then a - b else a + (SIZE_MAX + 1) - b)"

definition strlen :: "string \<Rightarrow> nat" where
  "strlen s = length (takeWhile (\<lambda>c. c \<noteq> NUL) s)"

definition END :: int where "END = 0"

definition UNMATCHABLE :: int where "UNMATCHABLE = - 2"

definition BRACKET :: int where "BRACKET = - 3"

definition QUESTION :: int where "QUESTION = - 4"

definition STAR :: int where "STAR = - 5"

definition FNM_NOMATCH :: int where "FNM_NOMATCH = 1"

datatype 'a flow = Undefined | Return int | Next 'a

definition pathlib__str_next :: "libc \<Rightarrow> string \<Rightarrow> nat \<Rightarrow> int \<times> nat" where
  "pathlib__str_next lc str n = (if n = 0 then (0, 0) else (char_val lc (byte_at str 0), 1))"

lemma byte_at_in: "byte_at s k \<noteq> NUL \<Longrightarrow> k < length s"
  by (simp add: byte_at_def split: if_splits)

function class_scan :: "string \<Rightarrow> nat \<Rightarrow> char \<Rightarrow> nat \<Rightarrow> nat" where
  "class_scan pat m z k =
     (if k < m \<and> byte_at pat k \<noteq> NUL \<and> (byte_at pat (k - 1) \<noteq> z \<or> byte_at pat k \<noteq> CHR '']'')
      then class_scan pat m z (k + 1) else k)"
  by pat_completeness auto
termination
proof (relation "measure (\<lambda>(pat, m, z, k). length pat - k)", goal_cases)
  case 1
  then show ?case by simp
next
  case (2 pat m z k)
  then show ?case using byte_at_in[of pat k] by simp
qed

declare class_scan.simps [simp del]

lemma class_scan_ge: "k \<le> class_scan pat m z k"
proof (induction pat m z k rule: class_scan.induct)
  case (1 pat m z k)
  then show ?case
    by (simp add: class_scan.simps[of pat m z k]) (metis Suc_leD)
qed

definition is_class_open :: "string \<Rightarrow> nat \<Rightarrow> nat \<Rightarrow> bool" where
  "is_class_open pat m k \<longleftrightarrow>
     k + 1 < m \<and> byte_at pat (k + 1) \<noteq> NUL \<and> byte_at pat k = CHR ''[''
     \<and> (byte_at pat (k + 1) = CHR '':'' \<or> byte_at pat (k + 1) = CHR ''.''
        \<or> byte_at pat (k + 1) = CHR ''='')"

definition class_end :: "string \<Rightarrow> nat \<Rightarrow> nat \<Rightarrow> nat" where
  "class_end pat m k =
     class_scan pat m (byte_at pat (k + 1))
       (if k + 2 < m \<and> byte_at pat (k + 2) \<noteq> NUL then k + 3 else k + 2)"

lemma class_end_gt: "k < class_end pat m k"
proof -
  have "k + 2 \<le> (if k + 2 < m \<and> byte_at pat (k + 2) \<noteq> NUL then k + 3 else k + 2)"
    by simp
  also have "\<dots> \<le> class_end pat m k"
    unfolding class_end_def by (rule class_scan_ge)
  finally show ?thesis by simp
qed

function bracket_scan :: "string \<Rightarrow> nat \<Rightarrow> nat \<Rightarrow> nat" where
  "bracket_scan pat m k =
     (if k < m \<and> byte_at pat k \<noteq> NUL \<and> byte_at pat k \<noteq> CHR '']'' then
        (if is_class_open pat m k then
           (if class_end pat m k = m \<or> byte_at pat (class_end pat m k) = NUL
            then class_end pat m k
            else bracket_scan pat m (class_end pat m k + 1))
         else bracket_scan pat m (k + 1))
      else k)"
  by pat_completeness auto
termination
proof (relation "measure (\<lambda>(pat, m, k). length pat - k)", goal_cases)
  case 1
  then show ?case by simp
next
  case (2 pat m k)
  then show ?case using class_end_gt[of k pat m] byte_at_in[of pat "class_end pat m k"] by simp
next
  case (3 pat m k)
  then show ?case using byte_at_in[of pat k] by simp
qed

declare bracket_scan.simps [simp del]


text \<open>
  \<^verbatim>\<open>pathlib__pat_next\<close>: the kind of the pattern element at \<open>pat\<close> and its length in bytes.
  A bracket that is not closed before the end is the literal \<open>[\<close>.
\<close>

definition bracket_start :: "string \<Rightarrow> nat \<Rightarrow> nat" where
  "bracket_start pat m =
     (let k = (if 1 < m \<and> (byte_at pat 1 = CHR ''^'' \<or> byte_at pat 1 = CHR ''!'') then 2 else 1)
      in if k < m \<and> byte_at pat k = CHR '']'' then k + 1 else k)"

definition bracket_token :: "string \<Rightarrow> nat \<Rightarrow> int \<times> nat" where
  "bracket_token pat m =
     (let k = bracket_scan pat m (bracket_start pat m)
      in if k = m \<or> byte_at pat k = NUL then (uchar CHR ''['', 1) else (BRACKET, k + 1))"

definition pathlib__pat_next :: "libc \<Rightarrow> string \<Rightarrow> nat \<Rightarrow> int \<times> nat" where
  "pathlib__pat_next lc pat m =
     (if m = 0 \<or> byte_at pat 0 = NUL then (END, 0)
      else if byte_at pat 0 = BSLASH \<and> byte_at pat 1 \<noteq> NUL then (char_val lc (byte_at pat 1), 2)
      else if byte_at pat 0 = CHR ''['' then bracket_token pat m
      else if byte_at pat 0 = CHR ''*'' then (STAR, 1)
      else if byte_at pat 0 = CHR ''?'' then (QUESTION, 1)
      else (char_val lc (byte_at pat 0), 1))"

definition wctype_names :: "string list" where
  "wctype_names = [''alnum'', ''alpha'', ''blank'', ''cntrl'', ''digit'', ''graph'',
                   ''lower'', ''print'', ''punct'', ''space'', ''upper'', ''xdigit'']"

fun wctype_loop :: "string \<Rightarrow> string list \<Rightarrow> nat \<Rightarrow> nat" where
  "wctype_loop s [] i = 0"
| "wctype_loop s (p # names) i = (if s = p then i else wctype_loop s names (i + 1))"

definition pathlib__wctype :: "string \<Rightarrow> nat" where
  "pathlib__wctype s = wctype_loop s wctype_names 1"

definition u32 :: "int \<Rightarrow> int" where
  "u32 x = x mod 2 ^ 32"

function class_close :: "string \<Rightarrow> char \<Rightarrow> nat \<Rightarrow> nat option" where
  "class_close p z j =
     (if length p < j then None
      else if byte_at p (j - 1) \<noteq> z \<or> byte_at p j \<noteq> CHR '']'' then class_close p z (j + 1)
      else Some j)"
  by pat_completeness auto
termination
  by (relation "measure (\<lambda>(p, z, j). length p + 1 - j)") simp_all

declare class_close.simps [simp del]

fun bracket_loop :: "nat \<Rightarrow> libc \<Rightarrow> string \<Rightarrow> int \<Rightarrow> int \<Rightarrow> bool \<Rightarrow> nat \<Rightarrow> int \<Rightarrow> bool option" where
  "bracket_loop 0 lc p k kfold invert i wc = None"
| "bracket_loop (Suc fuel) lc p k kfold invert i wc =
     (if length p < i then None
      else if byte_at p i = CHR '']'' then Some invert
      else if byte_at p i = CHR ''-'' \<and> byte_at p (i + 1) \<noteq> CHR '']'' then
        (case mbtowc lc (drop (i + 1) p) of (l, wc2) \<Rightarrow>
           if l < 0 then Some False
           else if wc \<le> wc2 \<and> (u32 (k - wc) \<le> u32 (wc2 - wc) \<or> u32 (kfold - wc) \<le> u32 (wc2 - wc))
           then Some (\<not> invert)
           else bracket_loop fuel lc p k kfold invert (i + nat l) wc)
      else if byte_at p i = CHR ''[''
              \<and> (byte_at p (i + 1) = CHR '':'' \<or> byte_at p (i + 1) = CHR ''.''
                 \<or> byte_at p (i + 1) = CHR ''='') then
        (case class_close p (byte_at p (i + 1)) (i + 3) of
           None \<Rightarrow> None
         | Some j \<Rightarrow>
             if byte_at p (i + 1) = CHR '':'' \<and> j - 1 - (i + 2) < 16
                \<and> (iswctype lc k (pathlib__wctype (take (j - 1 - (i + 2)) (drop (i + 2) p)))
                   \<or> iswctype lc kfold (pathlib__wctype (take (j - 1 - (i + 2)) (drop (i + 2) p))))
             then Some (\<not> invert)
             else bracket_loop fuel lc p k kfold invert (j + 1) wc)
      else if uchar (byte_at p i) < 128 then
        (if uchar (byte_at p i) = k \<or> uchar (byte_at p i) = kfold then Some (\<not> invert)
         else bracket_loop fuel lc p k kfold invert (i + 1) (uchar (byte_at p i)))
      else
        (case mbtowc lc (drop i p) of (l, wc') \<Rightarrow>
           if l < 0 then Some False
           else if wc' = k \<or> wc' = kfold then Some (\<not> invert)
           else bracket_loop fuel lc p k kfold invert (i + nat l) wc'))"

definition pathlib__match_bracket :: "libc \<Rightarrow> string \<Rightarrow> int \<Rightarrow> int \<Rightarrow> bool option" where
  "pathlib__match_bracket lc p k kfold =
     (let invert = (byte_at p 1 = CHR ''^'' \<or> byte_at p 1 = CHR ''!'');
          i = (if invert then 2 else 1)
      in if length p < i then None
         else if byte_at p i = CHR '']'' then
           (if k = uchar CHR '']'' then Some (\<not> invert)
            else bracket_loop (length p + 2) lc p k kfold invert (i + 1) (char_val lc (byte_at p i)))
         else if byte_at p i = CHR ''-'' then
           (if k = uchar CHR ''-'' then Some (\<not> invert)
            else bracket_loop (length p + 2) lc p k kfold invert (i + 1) (char_val lc (byte_at p i)))
         else bracket_loop (length p + 2) lc p k kfold invert i (char_val lc (byte_at p (i - 1))))"

lemma str_next_pos:
  "pathlib__str_next lc str n = (k, sinc) \<Longrightarrow> k \<noteq> 0 \<Longrightarrow> sinc = 1 \<and> str \<noteq> [] \<and> n \<noteq> 0"
  by (auto simp: pathlib__str_next_def char_val_def uchar_def byte_at_def NUL_def split: if_splits)

function head_loop :: "libc \<Rightarrow> string \<Rightarrow> nat \<Rightarrow> string \<Rightarrow> nat \<Rightarrow> (string \<times> string) flow" where
  "head_loop lc pat m str n =
     (case pathlib__pat_next lc pat m of (c, pinc) \<Rightarrow>
        if c = UNMATCHABLE then Return FNM_NOMATCH
        else if c = STAR then Next (drop 1 pat, str)
        else (case pathlib__str_next lc str n of (k, sinc) \<Rightarrow>
          if k \<le> 0 then Return (if c = END then 0 else FNM_NOMATCH)
          else if c = BRACKET then
            (case pathlib__match_bracket lc pat k k of
               None \<Rightarrow> Undefined
             | Some b \<Rightarrow>
                 if \<not> b then Return FNM_NOMATCH
                 else head_loop lc (drop pinc pat) (size_sub m pinc) (drop sinc str) (size_sub n sinc))
          else if c \<noteq> QUESTION \<and> k \<noteq> c then Return FNM_NOMATCH
          else head_loop lc (drop pinc pat) (size_sub m pinc) (drop sinc str) (size_sub n sinc)))"
  by pat_completeness auto
termination
  apply (relation "measure (\<lambda>(lc, pat, m, str, n). length str)")
    apply simp
   apply (auto dest!: str_next_pos[OF sym])
  done

declare head_loop.simps [simp del]


lemma pat_next_step:
  "pathlib__pat_next lc pat m = (c, pinc) \<Longrightarrow> pinc = 0 \<Longrightarrow> c = END"
  by (auto simp: pathlib__pat_next_def bracket_token_def Let_def split: if_splits)

text \<open>
  The scan for the last star: \<open>p\<close>, \<open>ptail\<close> and \<open>endpat\<close> are offsets from \<open>pat\<close>, the
  pattern after the star that ended the first loop.
\<close>

function tail_scan :: "libc \<Rightarrow> string \<Rightarrow> nat \<Rightarrow> nat \<Rightarrow> nat \<Rightarrow> nat \<Rightarrow> (nat \<times> nat) flow" where
  "tail_scan lc pat endpat p ptail tailcnt =
     (if p < endpat then
        (case pathlib__pat_next lc (drop p pat) (size_sub endpat p) of (c, pinc) \<Rightarrow>
           if c = UNMATCHABLE then Return FNM_NOMATCH
           else if pinc = 0 then Undefined
           else if c = STAR then tail_scan lc pat endpat (p + pinc) (p + 1) 0
           else tail_scan lc pat endpat (p + pinc) ptail (tailcnt + 1))
      else Next (ptail, tailcnt))"
  by pat_completeness auto
termination
  by (relation "measure (\<lambda>(lc, pat, endpat, p, ptail, tailcnt). endpat - p)") auto

declare tail_scan.simps [simp del]

function utf8_back :: "string \<Rightarrow> nat \<Rightarrow> nat \<Rightarrow> nat" where
  "utf8_back str0 str s =
     (if 128 \<le> uchar (byte_at str0 (s - 1)) \<and> uchar (byte_at str0 (s - 1)) < 192 \<and> str < s - 1
      then utf8_back str0 str (s - 1) else s - 1)"
  by pat_completeness auto
termination
  by (relation "measure (\<lambda>(str0, str, s). s)") auto

declare utf8_back.simps [simp del]

fun tail_back :: "libc \<Rightarrow> string \<Rightarrow> nat \<Rightarrow> nat \<Rightarrow> nat \<Rightarrow> nat \<times> nat" where
  "tail_back lc str0 str s 0 = (s, 0)"
| "tail_back lc str0 str s (Suc tailcnt) =
     (if str < s then
        (if uchar (byte_at str0 (s - 1)) < 128 \<or> mb_cur_max_one lc
         then tail_back lc str0 str (s - 1) tailcnt
         else tail_back lc str0 str (utf8_back str0 str s) tailcnt)
      else (s, Suc tailcnt))"

function tail_check :: "libc \<Rightarrow> string \<Rightarrow> string \<Rightarrow> nat \<Rightarrow> nat \<Rightarrow> nat \<Rightarrow> nat \<Rightarrow> unit flow" where
  "tail_check lc pat str endpat endstr p s =
     (case pathlib__pat_next lc (drop p pat) (size_sub endpat p) of (c, pinc) \<Rightarrow>
        (case pathlib__str_next lc (drop s str) (size_sub endstr s) of (k, sinc) \<Rightarrow>
           if k \<le> 0 then (if c \<noteq> END then Return FNM_NOMATCH else Next ())
           else if c = BRACKET then
             (case pathlib__match_bracket lc (drop p pat) k k of
                None \<Rightarrow> Undefined
              | Some b \<Rightarrow>
                  if \<not> b then Return FNM_NOMATCH
                  else tail_check lc pat str endpat endstr (p + pinc) (s + sinc))
           else if c \<noteq> QUESTION \<and> k \<noteq> c then Return FNM_NOMATCH
           else tail_check lc pat str endpat endstr (p + pinc) (s + sinc)))"
  by pat_completeness auto
termination
  apply (relation "measure (\<lambda>(lc, pat, str, endpat, endstr, p, s). length str - s)")
    apply simp
   apply (auto dest!: str_next_pos[OF sym])
  done

declare tail_check.simps [simp del]

text \<open>
  One attempt at a component: \<open>Next (Some (p, s))\<close> when a star ends it, \<open>Next None\<close> when
  a byte of the name does not fit.
\<close>

function comp_try :: "libc \<Rightarrow> string \<Rightarrow> string \<Rightarrow> nat \<Rightarrow> nat \<Rightarrow> nat \<Rightarrow> nat \<Rightarrow> (nat \<times> nat) option flow" where
  "comp_try lc pat str endpat endstr p s =
     (case pathlib__pat_next lc (drop p pat) (size_sub endpat p) of (c, pinc) \<Rightarrow>
        if c = STAR then Next (Some (p + pinc, s))
        else (case pathlib__str_next lc (drop s str) (size_sub endstr s) of (k, sinc) \<Rightarrow>
          if k = 0 then Return FNM_NOMATCH
          else if c = BRACKET then
            (case pathlib__match_bracket lc (drop p pat) k k of
               None \<Rightarrow> Undefined
             | Some b \<Rightarrow>
                 if \<not> b then Next None
                 else comp_try lc pat str endpat endstr (p + pinc) (s + sinc))
          else if c \<noteq> QUESTION \<and> k \<noteq> c then Next None
          else comp_try lc pat str endpat endstr (p + pinc) (s + sinc)))"
  by pat_completeness auto
termination
  apply (relation "measure (\<lambda>(lc, pat, str, endpat, endstr, p, s). length str - s)")
    apply simp
   apply (auto dest!: str_next_pos[OF sym])
  done

declare comp_try.simps [simp del]

function skip_invalid :: "libc \<Rightarrow> string \<Rightarrow> nat \<Rightarrow> nat \<Rightarrow> nat option" where
  "skip_invalid lc str endstr s =
     (if length str < s then None
      else if fst (pathlib__str_next lc (drop s str) (size_sub endstr s)) < 0
           then skip_invalid lc str endstr (s + 1)
           else Some s)"
  by pat_completeness auto
termination
  by (relation "measure (\<lambda>(lc, str, endstr, s). length str + 1 - s)") auto

declare skip_invalid.simps [simp del]


lemma comp_try_commit:
  "comp_try lc pat str endpat endstr p0 s0 = Next (Some (p, s)) \<Longrightarrow> p0 < p"
proof (induction lc pat str endpat endstr p0 s0 rule: comp_try.induct)
  case (1 lc pat str endpat endstr p0 s0)
  obtain c pinc where pn: "pathlib__pat_next lc (drop p0 pat) (size_sub endpat p0) = (c, pinc)"
    by (cases "pathlib__pat_next lc (drop p0 pat) (size_sub endpat p0)")
  obtain k sinc where sn: "pathlib__str_next lc (drop s0 str) (size_sub endstr s0) = (k, sinc)"
    by (cases "pathlib__str_next lc (drop s0 str) (size_sub endstr s0)")
  show ?case
  proof (cases "c = STAR")
    case True
    then have "pinc \<noteq> 0" using pat_next_step[OF pn] by (auto simp: STAR_def END_def)
    with True "1.prems" pn show ?thesis
      by (simp add: comp_try.simps[of lc pat str endpat endstr p0 s0])
  next
    case False
    with "1.prems" pn sn have "comp_try lc pat str endpat endstr (p0 + pinc) (s0 + sinc) = Next (Some (p, s))"
      by (simp add: comp_try.simps[of lc pat str endpat endstr p0 s0] split: if_splits option.splits)
    moreover from False "1.prems" pn sn have "k \<noteq> 0"
      by (simp add: comp_try.simps[of lc pat str endpat endstr p0 s0] split: if_splits)
    ultimately have "p0 + pinc < p"
      using "1.IH" pn sn False "1.prems"
      by (auto simp: comp_try.simps[of lc pat str endpat endstr p0 s0] split: if_splits option.splits)
    then show ?thesis by simp
  qed
qed

lemma skip_invalid_bounds:
  "skip_invalid lc str endstr s0 = Some s \<Longrightarrow> s0 \<le> s \<and> s \<le> length str"
proof (induction lc str endstr s0 rule: skip_invalid.induct)
  case (1 lc str endstr s0)
  then show ?case
    by (auto simp: skip_invalid.simps[of lc str endstr s0] split: if_splits)
qed

function comp_loop :: "libc \<Rightarrow> string \<Rightarrow> string \<Rightarrow> nat \<Rightarrow> nat \<Rightarrow> nat \<Rightarrow> nat \<Rightarrow> int option" where
  "comp_loop lc pat0 str0 endpat endstr pat str =
     (if pat < endpat then
        (case comp_try lc pat0 str0 endpat endstr pat str of
           Undefined \<Rightarrow> None
         | Return r \<Rightarrow> Some r
         | Next (Some (p, s)) \<Rightarrow> comp_loop lc pat0 str0 endpat endstr p s
         | Next None \<Rightarrow>
             (case pathlib__str_next lc (drop str str0) (size_sub endstr str) of (k, sinc) \<Rightarrow>
                if 0 < k then comp_loop lc pat0 str0 endpat endstr pat (str + sinc)
                else (case skip_invalid lc str0 endstr (str + 1) of
                        None \<Rightarrow> None
                      | Some s \<Rightarrow> comp_loop lc pat0 str0 endpat endstr pat s)))
      else Some 0)"
  by pat_completeness auto
termination
  apply (relation "measures [\<lambda>(lc, pat0, str0, endpat, endstr, pat, str). endpat - pat,
                          \<lambda>(lc, pat0, str0, endpat, endstr, pat, str). length str0 + 1 - str]")
     apply simp
    apply (auto dest!: comp_try_commit str_next_pos[OF sym] skip_invalid_bounds)
  done

declare comp_loop.simps [simp del]

definition pathlib__fnmatch_internal :: "libc \<Rightarrow> string \<Rightarrow> nat \<Rightarrow> string \<Rightarrow> nat \<Rightarrow> int option" where
  "pathlib__fnmatch_internal lc pat0 m str0 n =
     (case head_loop lc pat0 m str0 n of
        Undefined \<Rightarrow> None
      | Return r \<Rightarrow> Some r
      | Next (pat, str) \<Rightarrow>
          (case tail_scan lc pat (strlen pat) 0 0 0 of
             Undefined \<Rightarrow> None
           | Return r \<Rightarrow> Some r
           | Next (ptail, tailcnt) \<Rightarrow>
               if strlen str < tailcnt then Some FNM_NOMATCH
               else (case tail_back lc str 0 (strlen str) tailcnt of (stail, tailcnt') \<Rightarrow>
                 if tailcnt' \<noteq> 0 then Some FNM_NOMATCH
                 else (case tail_check lc pat str (strlen pat) (strlen str) ptail stail of
                         Undefined \<Rightarrow> None
                       | Return r \<Rightarrow> Some r
                       | Next u \<Rightarrow> comp_loop lc pat str ptail stail 0 0))))"

definition pathlib__fnmatch :: "libc \<Rightarrow> string \<Rightarrow> string \<Rightarrow> int option" where
  "pathlib__fnmatch lc pat str = pathlib__fnmatch_internal lc pat SIZE_MAX str SIZE_MAX"

text \<open>
  A C library for concrete runs, with plain char signed or not: the "C" locale, one byte
  to a character. Its \<^verbatim>\<open>mbtowc\<close> accepts the ASCII bytes only. Its \<^verbatim>\<open>iswctype\<close> takes as
  class the number that \<^verbatim>\<open>pathlib__wctype\<close> hands it (1 for \<open>alnum\<close> up to 12 for \<open>xdigit\<close>,
  the convention of musl, from which the matcher was taken) and holds the twelve classes
  of the ASCII range. The general statements below are for every \<open>libc\<close>.
\<close>

definition c_mbtowc :: "string \<Rightarrow> int \<times> int" where
  "c_mbtowc s = (if s = [] \<or> hd s = NUL then (0, 0)
                 else if uchar (hd s) < 128 then (1, uchar (hd s)) else (- 1, 0))"

definition c_iswctype :: "int \<Rightarrow> nat \<Rightarrow> bool" where
  "c_iswctype k d \<longleftrightarrow>
     (let digit = (48 \<le> k \<and> k \<le> 57); upper = (65 \<le> k \<and> k \<le> 90);
          lower = (97 \<le> k \<and> k \<le> 122); graph = (33 \<le> k \<and> k \<le> 126)
      in (d = 1 \<and> (digit \<or> upper \<or> lower)) \<or> (d = 2 \<and> (upper \<or> lower))
         \<or> (d = 3 \<and> (k = 32 \<or> k = 9)) \<or> (d = 4 \<and> ((0 \<le> k \<and> k < 32) \<or> k = 127))
         \<or> (d = 5 \<and> digit) \<or> (d = 6 \<and> graph) \<or> (d = 7 \<and> lower)
         \<or> (d = 8 \<and> 32 \<le> k \<and> k \<le> 126)
         \<or> (d = 9 \<and> graph \<and> \<not> (digit \<or> upper \<or> lower))
         \<or> (d = 10 \<and> (k = 32 \<or> (9 \<le> k \<and> k \<le> 13)))
         \<or> (d = 11 \<and> upper)
         \<or> (d = 12 \<and> (digit \<or> (65 \<le> k \<and> k \<le> 70) \<or> (97 \<le> k \<and> k \<le> 102))))"

definition c_locale :: "bool \<Rightarrow> libc" where
  "c_locale signed_char = \<lparr>char_signed = signed_char, mb_cur_max_one = True, mbtowc = c_mbtowc, iswctype = c_iswctype\<rparr>"


section \<open>Reference notions for the statements about matching\<close>










text \<open>The same cut on any list of units.\<close>

definition after_last_star :: "(int \<times> string) list \<Rightarrow> (int \<times> string) list" where
  "after_last_star us = rev (takeWhile (\<lambda>u. fst u \<noteq> STAR) (rev us))"


section \<open>The directory walker\<close>

text \<open>
  \<^verbatim>\<open>struct Paths { Path* paths; size_t size; size_t capacity; }\<close>. The list holds the live
  entries of the array; the array is \<^verbatim>\<open>NULL\<close> exactly while the capacity is 0.
\<close>

record Paths =
  paths :: "Path list"
  pssize :: nat
  pscapacity :: nat

definition empty_Paths :: Paths where
  "empty_Paths = \<lparr>paths = [], pssize = 0, pscapacity = 0\<rparr>"

definition pathlib_paths_add :: "Paths \<Rightarrow> Path \<Rightarrow> Paths" where
  "pathlib_paths_add ps path =
     \<lparr>paths = take (pssize ps) (paths ps) @ [path],
      pssize = pssize ps + 1,
      pscapacity = (if pscapacity ps \<le> pssize ps
                    then (if pscapacity ps = 0 then 4 else pscapacity ps * 2)
                    else pscapacity ps)\<rparr>"

definition pathlib_paths_free :: "Paths \<Rightarrow> Paths" where
  "pathlib_paths_free ps = (if pscapacity ps \<noteq> 0 then empty_Paths else ps)"

datatype Pathlib_Error = PATHLIB_NONE | PATHLIB_EXISTS | PATHLIB_NEXISTS | PATHLIB_OSERROR

text \<open>
  The state the walker changes: the global \<^verbatim>\<open>pathlib_error\<close>, and a record of every
  \<^verbatim>\<open>opendir\<close> call made (the path given, and whether a stream came back), kept to
  state which directories a call has opened.
\<close>

record world =
  pathlib_error :: Pathlib_Error
  opendir_calls :: "(string \<times> bool) list"

text \<open>
  What the operating system answers during one walk. For an entry of a directory,
  \<^verbatim>\<open>stat\<close> fails, or reports something that is not a directory, or reports a directory;
  for a directory, \<^verbatim>\<open>opendir\<close> fails, or \<^verbatim>\<open>readdir\<close> yields the names of the entries
  in some order (the entries \<open>.\<close> and \<open>..\<close> among them) until it returns \<^verbatim>\<open>NULL\<close>,
  which it does at the end of the directory and also when reading fails.
\<close>

datatype readdir_end = EndOfDirectory | ReaddirError

datatype fsnode = StatFails | NonDir | Dir dirstream
  and dirstream = OpendirFails | Stream "(string \<times> fsnode) list" readdir_end

text \<open>
  \<^verbatim>\<open>snprintf(fullpath, sizeof(fullpath), "%s/%s", base_path, entry->d_name)\<close> into a
  buffer of \<open>PATHLIB_MAX_PATH\<close> bytes: a longer text is cut, and the result is never
  negative for this format.
\<close>

definition entry_fullpath :: "nat \<Rightarrow> string \<Rightarrow> string \<Rightarrow> string" where
  "entry_fullpath path_max base_path d_name = take (path_max - 1) (base_path @ ''/'' @ d_name)"

text \<open>
  \<^verbatim>\<open>pathlib__recursive_glob\<close>, the branch for POSIX systems. The result is \<open>None\<close> where
  the matcher has no defined result; otherwise it holds the returned flag, the results and
  the state.
\<close>

fun pathlib__recursive_glob ::
    "libc \<Rightarrow> nat \<Rightarrow> string \<Rightarrow> string \<Rightarrow> bool \<Rightarrow> dirstream \<Rightarrow> Paths \<Rightarrow> world
      \<Rightarrow> (bool \<times> Paths \<times> world) option"
  and readdir_loop ::
    "libc \<Rightarrow> nat \<Rightarrow> string \<Rightarrow> string \<Rightarrow> bool \<Rightarrow> (string \<times> fsnode) list \<Rightarrow> Paths \<Rightarrow> world
      \<Rightarrow> (bool \<times> Paths \<times> world) option"
where
  "pathlib__recursive_glob lc path_max base_path pattern recursive OpendirFails results w =
     Some (False, results,
           w\<lparr>pathlib_error := PATHLIB_OSERROR,
             opendir_calls := opendir_calls w @ [(base_path, False)]\<rparr>)"
| "pathlib__recursive_glob lc path_max base_path pattern recursive (Stream entries null_cause) results w =
     readdir_loop lc path_max base_path pattern recursive entries results
       (w\<lparr>opendir_calls := opendir_calls w @ [(base_path, True)]\<rparr>)"
| "readdir_loop lc path_max base_path pattern recursive [] results w = Some (True, results, w)"
| "readdir_loop lc path_max base_path pattern recursive ((d_name, node) # entries) results w =
     (if d_name = ''.'' \<or> d_name = ''..''
      then readdir_loop lc path_max base_path pattern recursive entries results w
      else
        (case node of
           StatFails \<Rightarrow> readdir_loop lc path_max base_path pattern recursive entries results w
         | Dir ds \<Rightarrow>
             if recursive then
               (case pathlib__recursive_glob lc path_max
                       (entry_fullpath path_max base_path d_name) pattern recursive ds results w of
                  None \<Rightarrow> None
                | Some (ok, results', w') \<Rightarrow>
                    if \<not> ok then Some (False, results', w')
                    else readdir_loop lc path_max base_path pattern recursive entries results' w')
             else readdir_loop lc path_max base_path pattern recursive entries results w
         | NonDir \<Rightarrow>
             (case pathlib__fnmatch lc pattern d_name of
                None \<Rightarrow> None
              | Some r \<Rightarrow>
                  if r = 0
                  then readdir_loop lc path_max base_path pattern recursive entries
                         (pathlib_paths_add results
                            (pathlib_from_str (entry_fullpath path_max base_path d_name))) w
                  else readdir_loop lc path_max base_path pattern recursive entries results w)))"

text \<open>
  \<^verbatim>\<open>pathlib_render_str_to_buffer\<close>: \<open>Some\<close> of the text left in the buffer when it returns
  1, \<open>None\<close> when it returns 0.
\<close>

fun render_loop :: "string list \<Rightarrow> nat \<Rightarrow> string \<Rightarrow> string option" where
  "render_loop [] buffer_size buffer = None"
| "render_loop (part # rest) buffer_size buffer =
     (if buffer_size = 0 then None
      else if buffer_size < length part then None
      else if rest \<noteq> [] then
        (if buffer_size - length part < 1 then None
         else render_loop rest (buffer_size - length part - 1) (buffer @ part @ ''/''))
      else (if buffer_size - length part < 1 then None else Some (buffer @ part)))"

definition pathlib_render_str_to_buffer :: "Path \<Rightarrow> nat \<Rightarrow> string option" where
  "pathlib_render_str_to_buffer path buffer_size =
     (if psize path = 0 then (if buffer_size < 1 then None else Some [])
      else render_loop (segments path) buffer_size [])"

text \<open>
  What the operating system answers about the root of a walk: whether \<^verbatim>\<open>access\<close> finds
  it, and what \<^verbatim>\<open>stat\<close> and then \<^verbatim>\<open>opendir\<close> say.
\<close>

record root_answers =
  access_ok :: bool
  stat_root :: fsnode

definition pathlib_exists :: "nat \<Rightarrow> root_answers \<Rightarrow> Path \<Rightarrow> bool" where
  "pathlib_exists path_max os path =
     (case pathlib_render_str_to_buffer path path_max of
        None \<Rightarrow> False
      | Some filename \<Rightarrow> access_ok os)"

definition pathlib_is_dir :: "nat \<Rightarrow> root_answers \<Rightarrow> Path \<Rightarrow> world \<Rightarrow> bool \<times> world" where
  "pathlib_is_dir path_max os path w =
     (let w1 = w\<lparr>pathlib_error := PATHLIB_NONE\<rparr>
      in if \<not> pathlib_exists path_max os path then (False, w1)
         else (case pathlib_render_str_to_buffer path path_max of
                 None \<Rightarrow> (False, w1)
               | Some filename \<Rightarrow>
                   (case stat_root os of
                      StatFails \<Rightarrow> (False, w1\<lparr>pathlib_error := PATHLIB_OSERROR\<rparr>)
                    | NonDir \<Rightarrow> (False, w1)
                    | Dir ds \<Rightarrow> (True, w1))))"

text \<open>\<^verbatim>\<open>opendir\<close> on the root: only a directory can give a stream.\<close>

definition root_stream :: "root_answers \<Rightarrow> dirstream" where
  "root_stream os = (case stat_root os of Dir ds \<Rightarrow> ds | _ \<Rightarrow> OpendirFails)"

text \<open>
  \<^verbatim>\<open>pathlib_glob\<close> and \<^verbatim>\<open>pathlib_rglob\<close> have the same body but for the flag they pass
  to \<^verbatim>\<open>pathlib__recursive_glob\<close>.
\<close>

definition glob_body ::
    "bool \<Rightarrow> libc \<Rightarrow> nat \<Rightarrow> root_answers \<Rightarrow> Path \<Rightarrow> string \<Rightarrow> world \<Rightarrow> (Paths \<times> world) option" where
  "glob_body recursive lc path_max os path pattern w =
     (case pathlib_is_dir path_max os path (w\<lparr>pathlib_error := PATHLIB_NONE\<rparr>) of
        (isdir, w1) \<Rightarrow>
          if \<not> isdir then Some (empty_Paths, w1\<lparr>pathlib_error := PATHLIB_NEXISTS\<rparr>)
          else (case pathlib_render_str_to_buffer path path_max of
                  None \<Rightarrow> Some (empty_Paths, w1\<lparr>pathlib_error := PATHLIB_NEXISTS\<rparr>)
                | Some fullpath \<Rightarrow>
                    (case pathlib__recursive_glob lc path_max fullpath pattern recursive
                            (root_stream os) empty_Paths w1 of
                       None \<Rightarrow> None
                     | Some (ok, results, w2) \<Rightarrow>
                         Some (if \<not> ok then pathlib_paths_free results else results, w2))))"

definition pathlib_glob ::
    "libc \<Rightarrow> nat \<Rightarrow> root_answers \<Rightarrow> Path \<Rightarrow> string \<Rightarrow> world \<Rightarrow> (Paths \<times> world) option" where
  "pathlib_glob = glob_body False"

definition pathlib_rglob ::
    "libc \<Rightarrow> nat \<Rightarrow> root_answers \<Rightarrow> Path \<Rightarrow> string \<Rightarrow> world \<Rightarrow> (Paths \<times> world) option" where
  "pathlib_rglob = glob_body True"

section \<open>Reference notions for the statements about walks\<close>

text \<open>Some directory that the walk comes to cannot be opened.\<close>

fun open_fails :: "bool \<Rightarrow> dirstream \<Rightarrow> bool"
  and open_fails_in :: "bool \<Rightarrow> (string \<times> fsnode) list \<Rightarrow> bool"
where
  "open_fails recursive OpendirFails = True"
| "open_fails recursive (Stream entries null_cause) = open_fails_in recursive entries"
| "open_fails_in recursive [] = False"
| "open_fails_in recursive ((d_name, node) # entries) =
     (if d_name = ''.'' \<or> d_name = ''..'' then open_fails_in recursive entries
      else (case node of
              Dir ds \<Rightarrow> (recursive \<and> open_fails recursive ds) \<or> open_fails_in recursive entries
            | _ \<Rightarrow> open_fails_in recursive entries))"

text \<open>
  The entries that are not directories, in the order of the walk, each with the full path
  built for it and its name.
\<close>

fun file_entries :: "nat \<Rightarrow> bool \<Rightarrow> string \<Rightarrow> dirstream \<Rightarrow> (string \<times> string) list"
  and file_entries_in :: "nat \<Rightarrow> bool \<Rightarrow> string \<Rightarrow> (string \<times> fsnode) list \<Rightarrow> (string \<times> string) list"
where
  "file_entries path_max recursive base_path OpendirFails = []"
| "file_entries path_max recursive base_path (Stream entries null_cause) =
     file_entries_in path_max recursive base_path entries"
| "file_entries_in path_max recursive base_path [] = []"
| "file_entries_in path_max recursive base_path ((d_name, node) # entries) =
     (if d_name = ''.'' \<or> d_name = ''..'' then file_entries_in path_max recursive base_path entries
      else (case node of
              StatFails \<Rightarrow> file_entries_in path_max recursive base_path entries
            | NonDir \<Rightarrow> (entry_fullpath path_max base_path d_name, d_name)
                         # file_entries_in path_max recursive base_path entries
            | Dir ds \<Rightarrow>
                (if recursive
                 then file_entries path_max recursive (entry_fullpath path_max base_path d_name) ds
                 else [])
                @ file_entries_in path_max recursive base_path entries))"

definition is_existing_dir :: "nat \<Rightarrow> root_answers \<Rightarrow> Path \<Rightarrow> bool" where
  "is_existing_dir path_max os path \<longleftrightarrow>
     pathlib_render_str_to_buffer path path_max \<noteq> None \<and> access_ok os
     \<and> (case stat_root os of Dir ds \<Rightarrow> True | _ \<Rightarrow> False)"

text \<open>The Paths a walk is to return for a list of file entries: one for each name that matches.\<close>

definition matching_files :: "libc \<Rightarrow> string \<Rightarrow> (string \<times> string) list \<Rightarrow> Path list" where
  "matching_files lc pattern fes =
     map (\<lambda>(fullpath, d_name). pathlib_from_str fullpath)
       (filter (\<lambda>(fullpath, d_name). pathlib__fnmatch lc pattern d_name = Some 0) fes)"


definition demo_locked :: dirstream where
  "demo_locked = Stream [(''a.txt'', NonDir),
                         (''sub'', Dir (Stream [(''c.txt'', NonDir), (''deep'', Dir OpendirFails)]
                                          EndOfDirectory))] EndOfDirectory"



definition demo_world :: world where
  "demo_world = \<lparr>pathlib_error = PATHLIB_EXISTS, opendir_calls = []\<rparr>"







section \<open>Properties of the Path constructors and of rendering\<close>

subsection \<open>Parsing\<close>


lemma count_parts_filter: "count_parts s n = n + length (filter is_sep s)"
  by (induction s arbitrary: n) auto

lemma psize_store_part [simp]: "psize (store_part path s) = psize path + 1"
  by (simp add: store_part_def)

lemma length_parts_store_part [simp]: "length (parts (store_part path s)) = length (parts path)"
  by (simp add: store_part_def)

lemma segments_store_part:
  assumes "unat (psize path) < length (parts path)" and "unat (psize path) < 65535"
  shows "segments (store_part path s) = segments path @ [s]"
proof -
  have "unat (psize path + 1) = unat (psize path) + 1"
    using assms(2) by (simp add: unat_word_ariths)
  then show ?thesis
    using assms(1) by (simp add: segments_def store_part_def take_Suc_conv_app_nth)
qed

lemma segments_split_loop:
  assumes "unat (psize path) + length (filter is_sep temp) < length (parts path)"
    and "length (parts path) \<le> 65535"
  shows "segments (split_loop temp start path) = segments path @ split_at_seps temp start"
  using assms
proof (induction temp arbitrary: start path)
  case Nil
  then show ?case by (simp add: segments_store_part)
next
  case (Cons c temp)
  show ?case
  proof (cases "is_sep c")
    case True
    have u: "unat (psize path + 1) = unat (psize path) + 1"
      using Cons.prems by (simp add: unat_word_ariths)
    have "segments (split_loop temp [] (store_part path start))
          = segments (store_part path start) @ split_at_seps temp []"
      using Cons.prems True u by (intro Cons.IH) auto
    then show ?thesis
      using True Cons.prems by (simp add: segments_store_part)
  next
    case False
    then show ?thesis using Cons by simp
  qed
qed

lemma psize_split_loop:
  "psize (split_loop temp start path) = psize path + of_nat (count_parts temp 1)"
  by (induction temp arbitrary: start path) (auto simp: count_parts_filter)

lemma segments_from_str:
  assumes "count_parts s 1 \<le> 65535"
  shows "segments (pathlib_from_str s) = split_at_seps s []"
proof -
  let ?p = "\<lparr>parts = replicate (count_parts s 1) [], psize = 0, pcapacity = of_nat (count_parts s 1)\<rparr>"
  have "segments (split_loop s [] ?p) = segments ?p @ split_at_seps s []"
    using assms by (intro segments_split_loop) (auto simp: count_parts_filter)
  then show ?thesis by (simp add: pathlib_from_str_def Let_def segments_def)
qed

lemma copy_parts_concat:
  "copy_parts live region = region @ concat (map (\<lambda>p. p @ [SLASH]) live)"
  by (induction live arbitrary: region) auto

lemma concat_split: 
  "concat (map (\<lambda>p. p @ [SLASH]) (split_at_seps s cur)) = cur @ normalize_seps s @ [SLASH]"
  by (induction s arbitrary: cur) (auto simp: normalize_seps_def is_sep_def)

lemma length_split: "length (split_at_seps s cur) = Suc (length (filter is_sep s))"
  by (induction s arbitrary: cur) auto

lemma sum_len_split:
  "sum_list (map length (split_at_seps s cur)) + length (filter is_sep s) = length cur + length s"
  by (induction s arbitrary: cur) auto

lemma to_str_from_str:
  assumes "count_parts s 1 \<le> 65535"
  shows "pathlib_to_str (pathlib_from_str s) = normalize_seps s"
proof -
  let ?path = "pathlib_from_str s"
  have seg: "segments ?path = split_at_seps s []" using assms by (rule segments_from_str)
  have "psize ?path = of_nat (count_parts s 1)"
    by (simp add: pathlib_from_str_def Let_def psize_split_loop)
  moreover have "unat (of_nat (count_parts s 1) :: 16 word) = count_parts s 1"
    using assms by (simp add: unat_of_nat)
  ultimately have un: "unat (psize ?path) = Suc (length (filter is_sep s))"
    by (simp add: count_parts_filter)
  then have nz: "psize ?path \<noteq> 0" by (metis Zero_not_Suc unat_0)
  have tot: "sum_list (map length (segments ?path)) + (unat (psize ?path) - 1) = length s"
    using sum_len_split[of s "[]"] un seg by simp
  have "pathlib_to_str ?path = take (length s) (copy_parts (segments ?path) [])"
    using nz tot by (simp add: pathlib_to_str_def Let_def word_greater_zero_iff)
  then show ?thesis
    by (simp add: seg copy_parts_concat concat_split normalize_seps_def)
qed


lemma split_ne: "split_at_seps s cur \<noteq> []"
  by (induction s arbitrary: cur) auto

lemma last_split_empty:
  "s \<noteq> [] \<Longrightarrow> is_sep (last s) \<Longrightarrow> last (split_at_seps s cur) = []"
proof (induction s arbitrary: cur)
  case Nil
  then show ?case by simp
next
  case (Cons c s)
  show ?case
  proof (cases "s = []")
    case True
    with Cons.prems show ?thesis by simp
  next
    case False
    with Cons show ?thesis by (simp add: split_ne)
  qed
qed

lemma no_empty_segment_last:
  assumes "no_empty_segment s"
  shows "s \<noteq> [] \<and> \<not> is_sep (last s)"
proof (cases s)
  case Nil
  with assms show ?thesis by (simp add: no_empty_segment_def)
next
  case (Cons c cs)
  have "last (split_at_seps s []) \<in> set (split_at_seps s [])"
    by (rule last_in_set) (rule split_ne)
  then have "last (split_at_seps s []) \<noteq> []"
    using assms by (simp add: no_empty_segment_def list_all_iff)
  then show ?thesis using last_split_empty[of s "[]"] Cons by auto
qed

lemma normalize_no_trailing:
  assumes "s \<noteq> []" and "\<not> is_sep (last s)"
  shows "normalize_seps s \<noteq> t @ [SLASH]"
proof
  assume "normalize_seps s = t @ [SLASH]"
  then have "last (normalize_seps s) = SLASH" by simp
  then have "is_sep (last s)"
    using assms(1) by (auto simp: normalize_seps_def last_map is_sep_def split: if_splits)
  with assms(2) show False by simp
qed

lemma normalize_id: "BSLASH \<notin> set s \<Longrightarrow> normalize_seps s = s"
  by (induction s) (auto simp: normalize_seps_def)

lemma filter_rep: "filter is_sep (concat (replicate n ''a/'') @ t) = replicate n SLASH @ filter is_sep t"
  by (induction n) (auto simp: is_sep_def BSLASH_def SLASH_def)

lemma split_rep: "split_at_seps (concat (replicate n ''a/'') @ t) [] = replicate n ''a'' @ split_at_seps t []"
  by (induction n) (auto simp: is_sep_def BSLASH_def SLASH_def)

lemma set_rep: "set (concat (replicate n ''a/'')) \<subseteq> {CHR ''a'', CHR ''/''}"
  by (induction n) auto


lemma parts_store_part_all:
  "list_all P (parts path) \<Longrightarrow> P s \<Longrightarrow> list_all P (parts (store_part path s))"
  using set_update_subset_insert[of "parts path" "unat (psize path)" s]
  by (auto simp: store_part_def list_all_iff)

lemma parts_split_loop_all:
  "list_all sep_free (parts path) \<Longrightarrow> sep_free start
   \<Longrightarrow> list_all sep_free (parts (split_loop temp start path))"
proof (induction temp arbitrary: start path)
  case Nil
  then show ?case by (simp add: parts_store_part_all)
next
  case (Cons c temp)
  show ?case
  proof (cases "is_sep c")
    case True
    have "list_all sep_free (parts (store_part path start))"
      using Cons.prems by (simp add: parts_store_part_all)
    moreover have "sep_free []" by (simp add: sep_free_def)
    ultimately show ?thesis using True Cons.IH[of "store_part path start" "[]"]
      by simp
  next
    case False
    then have "sep_free (start @ [c])" using Cons.prems by (simp add: sep_free_def)
    then show ?thesis using False Cons.IH[of path "start @ [c]"] Cons.prems by simp
  qed
qed

lemma from_str_sep_free: "seg \<in> set (segments (pathlib_from_str s)) \<Longrightarrow> sep_free seg"
proof -
  assume a: "seg \<in> set (segments (pathlib_from_str s))"
  have "list_all sep_free (parts (pathlib_from_str s))"
    unfolding pathlib_from_str_def Let_def
    by (rule parts_split_loop_all) (simp_all add: sep_free_def list_all_iff)
  moreover have "seg \<in> set (parts (pathlib_from_str s))"
    using a set_take_subset unfolding segments_def by fastforce
  ultimately show ?thesis by (simp add: list_all_iff)
qed

lemma grow_capacity_inc: "n < unat (c::16 word) \<Longrightarrow> unat ((w::16 word)) = n \<Longrightarrow> unat (w + 1) = Suc n"
  using unsigned_less[of c, where 'a=nat] by (simp add: unat_word_ariths)

lemma add_part_segments:
  assumes "pathlib_add_part path part = Some path'"
  shows "segments path' = segments path @ [part]"
proof (cases "pcapacity path \<le> psize path")
  case True
  let ?n = "unat (psize path)" and ?cap = "grow_capacity (pcapacity path)"
  from assms True have c: "?n < unat ?cap" "?n \<le> length (parts path)"
    and p: "path' = \<lparr>parts = take ?n (parts path) @ part # replicate (unat ?cap - ?n - 1) [],
                       psize = psize path + 1, pcapacity = ?cap\<rparr>"
    by (auto simp: pathlib_add_part_def Let_def split: if_splits)
  have "unat (psize path + 1) = Suc ?n" using c(1) by (rule grow_capacity_inc) simp
  then show ?thesis using c(2) by (simp add: p segments_def)
next
  case False
  with assms have c: "unat (psize path) < length (parts path)" and p: "path' = store_part path part"
    by (auto simp: pathlib_add_part_def split: if_splits)
  from False have "unat (psize path) < unat (pcapacity path)"
    by (simp add: word_less_nat_alt not_le)
  then have "unat (psize path) < 65535"
    using unsigned_less[of "pcapacity path", where 'a=nat] by simp
  then show ?thesis using c by (simp add: p segments_store_part)
qed

lemma copy_segments:
  assumes "pathlib_copy path = Some path'"
  shows "segments path' = segments path"
  using assms by (auto simp: pathlib_copy_def Let_def segments_def split: if_splits)

lemma add_parts_segments:
  "add_parts ret xs = Some r \<Longrightarrow> segments r = segments ret @ xs"
  by (induction xs arbitrary: ret) (auto split: option.splits dest: add_part_segments)

lemma joinpath_segments:
  assumes "pathlib_joinpath a b = Some ab"
  shows "segments ab = segments a @ segments b"
proof -
  from assms obtain ret where r: "add_parts empty_Path (segments a) = Some ret"
    and ab: "add_parts ret (segments b) = Some ab"
    by (auto simp: pathlib_joinpath_def split: if_splits option.splits)
  have "segments ret = segments a"
    using add_parts_segments[OF r] by (simp add: segments_def empty_Path_def)
  then show ?thesis using add_parts_segments[OF ab] by simp
qed

lemma parent_segments:
  assumes "pathlib_parent path = Some par"
  shows "segments par = (if psize path = 1 then [''.''] else take (unat (psize path) - 1) (segments path))"
proof (cases "psize path = 1")
  case True
  with assms show ?thesis by (auto simp: pathlib_parent_def segments_def)
next
  case False
  show ?thesis
  proof (cases "0 < psize path")
    case True
    then have "unat (psize path - 1) = unat (psize path) - 1"
      by (simp add: unat_minus_one word_greater_zero_iff)
    with assms False True show ?thesis
      by (auto simp: pathlib_parent_def Let_def segments_def min_def split: if_splits)
  next
    case z: False
    then have "psize path = 0" by (simp add: word_greater_zero_iff)
    with assms show ?thesis by (auto simp: pathlib_parent_def segments_def empty_Path_def)
  qed
qed





subsection \<open>C8: what the constructors put into a Path\<close>

text \<open>
  C8, as stated, asks that every segment of a constructed Path is non-empty and holds no
  separator. Parsing \<open>/usr\<close> gives an empty first segment (which is what lets an absolute
  path render back with its leading slash), and \<^verbatim>\<open>pathlib_add_part\<close> stores any text,
  a separator included.
\<close>

theorem constructed_segment_counterexample:
  "segments (pathlib_from_str ''/usr'') = [[], ''usr'']
   \<and> map_option segments (pathlib_add_part empty_Path ''a/b'') = Some [''a/b'']"
  by code_simp

text \<open>
  C8, amended: every segment that \<^verbatim>\<open>pathlib_from_str\<close> produces is free of separators
  (it may be empty); \<^verbatim>\<open>pathlib_add_part\<close> appends exactly the text it is given; copying
  keeps the segments, joining concatenates them, and the parent drops the last one (the
  parent of a one-segment path is the single segment \<open>.\<close>).
\<close>

theorem segments_of_constructors:
  "(\<forall>seg \<in> set (segments (pathlib_from_str s)). sep_free seg)
   \<and> (pathlib_add_part path part = Some path1 \<longrightarrow> segments path1 = segments path @ [part])
   \<and> (pathlib_copy path = Some path2 \<longrightarrow> segments path2 = segments path)
   \<and> (pathlib_joinpath path other = Some path3 \<longrightarrow> segments path3 = segments path @ segments other)
   \<and> (pathlib_parent path = Some path4 \<longrightarrow>
        segments path4 = (if psize path = 1 then [''.'']
                          else take (unat (psize path) - 1) (segments path)))"
  using from_str_sep_free add_part_segments copy_segments joinpath_segments parent_segments
  by blast

theorem segments_of_constructors_witness:
  "list_all sep_free (segments (pathlib_from_str ''usr/local''))
   \<and> segments (pathlib_from_str ''usr/local'') = [''usr'', ''local'']
   \<and> pathlib_add_part (pathlib_from_str ''usr/local'') ''bin''
       = Some \<lparr>parts = [''usr'', ''local'', ''bin'', []], psize = 3, pcapacity = 4\<rparr>
   \<and> segments \<lparr>parts = [''usr'', ''local'', ''bin'', []], psize = 3, pcapacity = 4\<rparr>
       = [''usr'', ''local''] @ [''bin'']
   \<and> pathlib_copy (pathlib_from_str ''usr/local'')
       = Some \<lparr>parts = [''usr'', ''local''], psize = 2, pcapacity = 2\<rparr>
   \<and> pathlib_joinpath (pathlib_from_str ''usr/local'') (pathlib_from_str ''bin'')
       = Some \<lparr>parts = [''usr'', ''local'', ''bin'', []], psize = 3, pcapacity = 4\<rparr>
   \<and> pathlib_parent (pathlib_from_str ''usr/local'')
       = Some \<lparr>parts = [''usr'', []], psize = 1, pcapacity = 2\<rparr>
   \<and> segments \<lparr>parts = [''usr'', []], psize = 1, pcapacity = 2\<rparr> = [''usr'']"
proof -
  let ?p = "pathlib_from_str ''usr/local''"
  let ?q = "\<lparr>parts = [''usr'', ''local'', ''bin'', []], psize = 3, pcapacity = 4\<rparr>"
  let ?c = "\<lparr>parts = [''usr'', ''local''], psize = 2, pcapacity = 2\<rparr>"
  let ?r = "\<lparr>parts = [''usr'', []], psize = 1, pcapacity = 2\<rparr>"
  have s: "segments ?p = [''usr'', ''local'']" by code_simp
  have a: "pathlib_add_part ?p ''bin'' = Some ?q" by code_simp
  have c: "pathlib_copy ?p = Some ?c" by code_simp
  have j: "pathlib_joinpath ?p (pathlib_from_str ''bin'') = Some ?q" by code_simp
  have r: "pathlib_parent ?p = Some ?r" by code_simp
  have n: "psize ?p \<noteq> 1" by code_simp
  have u: "unat (psize ?p) - 1 = 1" by code_simp
  from segments_of_constructors [of "''usr/local''" ?p "''bin''" ?q ?c "pathlib_from_str ''bin''" ?q ?r]
  show ?thesis using s a c j r n u by (simp add: list_all_iff)
qed

subsection \<open>C9: parsing and rendering again\<close>

text \<open>
  C9, as stated, holds for every string without empty segments and with one separator
  style. The part counter of a Path is an unsigned short: a string of 65536 segments parses
  to a Path whose size has wrapped around to 0, and that Path renders to the empty string.
\<close>

theorem roundtrip_long_path_counterexample:
  "no_empty_segment long_path \<and> single_style long_path
   \<and> pathlib_to_str (pathlib_from_str long_path) \<noteq> normalize_seps long_path"
proof -
  have "length (filter is_sep (concat (replicate 65535 ''a/'') @ ''a'')) = 65535"
    unfolding filter_rep by (simp add: is_sep_def BSLASH_def SLASH_def)
  then have "count_parts long_path 1 = 65536"
    unfolding count_parts_filter long_path_def by simp
  then have "psize (pathlib_from_str long_path) = 0"
    by (simp add: pathlib_from_str_def Let_def psize_split_loop)
  then have "pathlib_to_str (pathlib_from_str long_path) = []"
    by (simp add: pathlib_to_str_def)
  moreover have "normalize_seps long_path \<noteq> []"
    by (simp add: normalize_seps_def long_path_def)
  moreover have "no_empty_segment long_path"
    by (simp add: no_empty_segment_def long_path_def split_rep list_all_iff is_sep_def BSLASH_def SLASH_def)
  moreover have "single_style long_path"
    using set_rep[of 65535] by (auto simp: single_style_def long_path_def BSLASH_def)
  ultimately show ?thesis by simp
qed

text \<open>
  C9, amended: for every string of at most 65535 segments that has no empty segment and
  uses one separator style, rendering the parsed Path gives the string back with every
  backslash turned into a slash (so the string itself when it has no backslash); the
  empty Path renders to the empty string, and the rendering never ends in a separator.
\<close>

theorem roundtrip_from_str_to_str:
  assumes "no_empty_segment s" and "single_style s" and "count_parts s 1 \<le> 65535"
  shows "pathlib_to_str (pathlib_from_str s) = normalize_seps s
       \<and> (BSLASH \<notin> set s \<longrightarrow> pathlib_to_str (pathlib_from_str s) = s)
       \<and> pathlib_to_str empty_Path = []
       \<and> (\<forall>t. pathlib_to_str (pathlib_from_str s) \<noteq> t @ [SLASH])"
  using assms to_str_from_str[of s] normalize_id[of s] no_empty_segment_last[of s]
    normalize_no_trailing[of s]
  by (simp add: pathlib_to_str_def empty_Path_def)

theorem roundtrip_from_str_to_str_witness:
  "no_empty_segment ''usr/local/bin'' \<and> single_style ''usr/local/bin''
   \<and> count_parts ''usr/local/bin'' 1 \<le> 65535
   \<and> pathlib_to_str (pathlib_from_str ''usr/local/bin'') = ''usr/local/bin''"
proof -
  have h1: "no_empty_segment ''usr/local/bin''"
    by (simp add: no_empty_segment_def is_sep_def BSLASH_def SLASH_def)
  have h2: "single_style ''usr/local/bin''"
    by (simp add: single_style_def BSLASH_def)
  have h3: "count_parts ''usr/local/bin'' 1 \<le> 65535"
    by (simp add: is_sep_def BSLASH_def SLASH_def)
  have h4: "BSLASH \<notin> set ''usr/local/bin''"
    by (simp add: BSLASH_def)
  from roundtrip_from_str_to_str [OF h1 h2 h3] h4
  have "pathlib_to_str (pathlib_from_str ''usr/local/bin'') = ''usr/local/bin''" by blast
  with h1 h2 h3 show ?thesis by blast
qed

section \<open>Properties of the wildcard matcher\<close>

lemma pat_next_star: "pathlib__pat_next lc ''*'' SIZE_MAX = (STAR, 1)"
  by (simp add: pathlib__pat_next_def byte_at_def NUL_def BSLASH_def SIZE_MAX_def)

lemma strlen_le: "strlen s \<le> length s"
  by (simp add: strlen_def length_takeWhile_le)

lemma fnmatch_star: "pathlib__fnmatch lc ''*'' str = Some 0"
proof -
  have h: "head_loop lc ''*'' SIZE_MAX str SIZE_MAX = Next ([], str)"
    by (simp add: head_loop.simps[of lc "''*''"] pat_next_star STAR_def UNMATCHABLE_def)
  have ts: "tail_scan lc [] (strlen []) 0 0 0 = Next (0, 0)"
    by (simp add: tail_scan.simps[of lc "[]"] strlen_def)
  have tb: "tail_back lc str 0 (strlen str) 0 = (strlen str, 0)" by simp
  have tc: "tail_check lc [] str (strlen []) (strlen str) 0 (strlen str) = Next ()"
    by (simp add: tail_check.simps[of lc "[]"] pathlib__pat_next_def pathlib__str_next_def
          size_sub_def strlen_def END_def)
  have cl: "comp_loop lc [] str 0 (strlen str) 0 0 = Some 0"
    by (simp add: comp_loop.simps[of lc "[]"])
  show ?thesis
    by (simp add: pathlib__fnmatch_def pathlib__fnmatch_internal_def h ts tb tc cl)
qed







text \<open>A bound that reaches the terminator decides nothing: the terminator is met first.\<close>

lemma byte_at_bound: "length pat \<le> m \<Longrightarrow> (k < m \<and> byte_at pat k \<noteq> NUL) = (byte_at pat k \<noteq> NUL)"
  using byte_at_in[of pat k] by auto

lemma byte_at_eq_bound:
  "length pat \<le> m \<Longrightarrow> c \<noteq> NUL \<Longrightarrow> (k < m \<and> byte_at pat k = c) = (byte_at pat k = c)"
  using byte_at_in[of pat k] by auto




lemma at_bound_NUL: "length pat \<le> m \<Longrightarrow> r \<le> m \<Longrightarrow> (r = m \<or> byte_at pat r = NUL) = (byte_at pat r = NUL)"
  by (auto simp: byte_at_def)










lemma str_next_step:
  "pathlib__str_next lc str n = (k, sinc) \<Longrightarrow> sinc \<le> length str \<or> k = 0"
  by (auto simp: pathlib__str_next_def byte_at_def char_val_def uchar_def NUL_def Suc_le_eq split: if_splits)




lemma uchar_nat: "uchar c = int (of_char c)"
  by (simp add: uchar_def of_nat_of_char)

lemma uchar_range: "0 \<le> uchar c \<and> uchar c < 256"
  unfolding uchar_nat using nat_of_char_less_256[of c] by simp


lemma char_val_pos: "0 < char_val lc c \<Longrightarrow> char_val lc c = uchar c"
  using uchar_range[of c] by (auto simp: char_val_def split: if_splits)








lemmas fnmatch_defs = pathlib__pat_next_def pathlib__str_next_def pathlib__match_bracket_def
  bracket_start_def bracket_token_def is_class_open_def class_end_def byte_at_def char_val_def
  uchar_def NUL_def BSLASH_def SIZE_MAX_def size_sub_def strlen_def END_def UNMATCHABLE_def
  BRACKET_def QUESTION_def STAR_def FNM_NOMATCH_def c_locale_def c_mbtowc_def c_iswctype_def
  u32_def pathlib__wctype_def wctype_names_def



text \<open>
  C1: where plain \<^verbatim>\<open>char\<close> is signed, \<^verbatim>\<open>pathlib__str_next\<close> hands a byte above 127 to the
  matcher as a negative number, which the test \<^verbatim>\<open>k <= 0\<close> takes for the end of the name.
  The pattern of the two bytes C3 A9 (the letter e with an acute accent in UTF-8), which has no
  metacharacter, does not match the equal name, and the pattern \<open>a\<close> matches the longer
  name made of \<open>a\<close> and these two bytes. Where plain \<^verbatim>\<open>char\<close> is unsigned the equal name is matched.
\<close>

theorem literal_pattern_rejects_equal_name:
  "pathlib__fnmatch (c_locale True) [CHR 0xC3, CHR 0xA9] [CHR 0xC3, CHR 0xA9] = Some FNM_NOMATCH
   \<and> pathlib__fnmatch (c_locale True) ''a'' [CHR ''a'', CHR 0xC3, CHR 0xA9] = Some 0
   \<and> pathlib__fnmatch (c_locale False) [CHR 0xC3, CHR 0xA9] [CHR 0xC3, CHR 0xA9] = Some 0"
  unfolding pathlib__fnmatch_def pathlib__fnmatch_internal_def
  apply (intro conjI)
    apply (subst head_loop.simps, simp add: fnmatch_defs)
   apply ((subst head_loop.simps, simp add: fnmatch_defs)+)[1]
  apply ((subst head_loop.simps, simp add: fnmatch_defs)+)[1]
  done

theorem literal_pattern_rejects_equal_name_witness:
  "pathlib__fnmatch (c_locale True) [CHR 0xC3, CHR 0xA9] [CHR 0xC3, CHR 0xA9] \<noteq> Some 0
   \<and> pathlib__fnmatch (c_locale True) ''a'' [CHR ''a'', CHR 0xC3, CHR 0xA9] \<noteq> Some 1"
  using literal_pattern_rejects_equal_name by (simp add: FNM_NOMATCH_def)

text \<open>
  C3: with signed plain \<^verbatim>\<open>char\<close> the empty pattern matches the non-empty name
  of the two bytes C3 A9, and the pattern of the one byte FB, which is no star, matches the empty name:
  as a signed byte it is -5, the code of the star token. With unsigned plain \<^verbatim>\<open>char\<close> the
  empty pattern rejects that name.
\<close>

theorem empty_pattern_accepts_name:
  "pathlib__fnmatch (c_locale True) [] [CHR 0xC3, CHR 0xA9] = Some 0
   \<and> pathlib__fnmatch (c_locale True) [CHR 0xFB] [] = Some 0
   \<and> pathlib__fnmatch (c_locale False) [] [CHR 0xC3, CHR 0xA9] = Some FNM_NOMATCH"
  unfolding pathlib__fnmatch_def pathlib__fnmatch_internal_def
  apply (intro conjI)
    apply (subst head_loop.simps, simp add: fnmatch_defs)
   defer
   apply (subst head_loop.simps, simp add: fnmatch_defs)
  apply (subst head_loop.simps, simp add: fnmatch_defs)
  apply (subst tail_scan.simps, simp add: fnmatch_defs)
  apply (subst tail_check.simps, simp add: fnmatch_defs)
  apply (subst comp_loop.simps, simp add: fnmatch_defs)
  done

theorem empty_pattern_accepts_name_witness:
  "pathlib__fnmatch (c_locale True) [] [CHR 0xC3, CHR 0xA9] \<noteq> Some 1
   \<and> pathlib__fnmatch (c_locale True) [CHR 0xFB] [] \<noteq> Some 1"
  using empty_pattern_accepts_name by simp








lemma after_last_star_Nil: "after_last_star [] = []"
  by (simp add: after_last_star_def)














































section \<open>Properties of the directory walker\<close>

lemma matching_files_simps [simp]:
  "matching_files lc pattern [] = []"
  "matching_files lc pattern ((fp, name) # fes) =
     (if pathlib__fnmatch lc pattern name = Some 0 then pathlib_from_str fp # matching_files lc pattern fes
      else matching_files lc pattern fes)"
  "matching_files lc pattern (xs @ ys) = matching_files lc pattern xs @ matching_files lc pattern ys"
  by (simp_all add: matching_files_def)

lemma walk_success:
  shows "\<forall>name. pathlib__fnmatch lc pattern name \<noteq> None \<Longrightarrow> \<not> open_fails recursive ds \<Longrightarrow>
           \<exists>w'. pathlib__recursive_glob lc path_max base_path pattern recursive ds results w
                = Some (True, foldl pathlib_paths_add results
                                (matching_files lc pattern (file_entries path_max recursive base_path ds)), w')
              \<and> pathlib_error w' = pathlib_error w"
    and "\<forall>name. pathlib__fnmatch lc pattern name \<noteq> None \<Longrightarrow> \<not> open_fails_in recursive entries \<Longrightarrow>
           \<exists>w'. readdir_loop lc path_max base_path pattern recursive entries results w
                = Some (True, foldl pathlib_paths_add results
                                (matching_files lc pattern (file_entries_in path_max recursive base_path entries)), w')
              \<and> pathlib_error w' = pathlib_error w"
proof (induction lc path_max base_path pattern recursive ds results w
         and lc path_max base_path pattern recursive entries results w
       rule: pathlib__recursive_glob_readdir_loop.induct)
  case (1 lc path_max base_path pattern recursive results w)
  then show ?case by simp
next
  case (2 lc path_max base_path pattern recursive entries results w)
  then show ?case by simp
next
  case (3 lc path_max base_path pattern recursive results w)
  then show ?case by simp
next
  case (4 lc path_max base_path pattern recursive d_name node entries results w)
  show ?case
  proof (cases "d_name = ''.'' \<or> d_name = ''..''")
    case True
    with 4 show ?thesis by simp
  next
    case False
    show ?thesis
    proof (cases node)
      case StatFails
      with 4 False show ?thesis by simp
    next
      case NonDir
      obtain r where r: "pathlib__fnmatch lc pattern d_name = Some r"
        using "4.prems"(1) by auto
      show ?thesis
      proof (cases "r = 0")
        case True
        with 4 False NonDir r show ?thesis by simp
      next
        case nz: False
        with 4 False NonDir r show ?thesis by simp
      qed
    next
      case (Dir ds)
      show ?thesis
      proof (cases recursive)
        case False
        with 4 \<open>\<not> (d_name = ''.'' \<or> d_name = ''..'')\<close> Dir show ?thesis by simp
      next
        case True
        from "4.prems" \<open>\<not> (d_name = ''.'' \<or> d_name = ''..'')\<close> Dir True
        have nf: "\<not> open_fails recursive ds" "\<not> open_fails_in recursive entries" by auto
        let ?fp = "entry_fullpath path_max base_path d_name"
        let ?r1 = "foldl pathlib_paths_add results (matching_files lc pattern (file_entries path_max recursive ?fp ds))"
        from "4.IH"(5)[OF \<open>\<not> (d_name = ''.'' \<or> d_name = ''..'')\<close> Dir True "4.prems"(1) nf(1)]
        obtain w1 where w1: "pathlib__recursive_glob lc path_max ?fp pattern recursive ds results w = Some (True, ?r1, w1)"
          and e1: "pathlib_error w1 = pathlib_error w" by blast
        from "4.IH"(6)[OF \<open>\<not> (d_name = ''.'' \<or> d_name = ''..'')\<close> Dir True w1 refl refl _ "4.prems"(1) nf(2)]
        obtain w2 where w2: "readdir_loop lc path_max base_path pattern recursive entries ?r1 w1
              = Some (True, foldl pathlib_paths_add ?r1 (matching_files lc pattern (file_entries_in path_max recursive base_path entries)), w2)"
          and e2: "pathlib_error w2 = pathlib_error w1" by auto
        show ?thesis
          using \<open>\<not> (d_name = ''.'' \<or> d_name = ''..'')\<close> Dir True w1 w2 e1 e2 by simp
      qed
    qed
  qed
qed


lemma paths_add_capacity: "pscapacity (pathlib_paths_add ps path) \<noteq> 0"
  by (simp add: pathlib_paths_add_def)

lemma foldl_add_free:
  "pscapacity ps = 0 \<longrightarrow> ps = empty_Paths \<Longrightarrow>
   pathlib_paths_free (foldl pathlib_paths_add ps xs) = empty_Paths"
proof (induction xs arbitrary: ps)
  case Nil
  then show ?case by (auto simp: pathlib_paths_free_def empty_Paths_def)
next
  case (Cons x xs)
  show ?case using Cons.IH[of "pathlib_paths_add ps x"] paths_add_capacity[of ps x] by simp
qed









lemma is_dir_no:
  "\<not> is_existing_dir path_max os path \<Longrightarrow> fst (pathlib_is_dir path_max os path w) = False
     \<and> opendir_calls (snd (pathlib_is_dir path_max os path w)) = opendir_calls w"
  by (auto simp: pathlib_is_dir_def pathlib_exists_def is_existing_dir_def Let_def
           split: option.splits fsnode.splits)


lemma glob_body_no:
  assumes "\<not> is_existing_dir path_max os path"
  shows "\<exists>w'. glob_body recursive lc path_max os path pattern w = Some (empty_Paths, w')
          \<and> pathlib_error w' = PATHLIB_NEXISTS \<and> opendir_calls w' = opendir_calls w"
proof -
  obtain b w1 where r: "pathlib_is_dir path_max os path (w\<lparr>pathlib_error := PATHLIB_NONE\<rparr>) = (b, w1)"
    by (cases "pathlib_is_dir path_max os path (w\<lparr>pathlib_error := PATHLIB_NONE\<rparr>)")
  with is_dir_no[OF assms, of "w\<lparr>pathlib_error := PATHLIB_NONE\<rparr>"]
  have "b = False" "opendir_calls w1 = opendir_calls w" by simp_all
  with r show ?thesis by (simp add: glob_body_def)
qed


lemma fnmatch_star_defined: "\<forall>name. pathlib__fnmatch lc ''*'' name \<noteq> None"
  by (simp add: fnmatch_star)



text \<open>
  C7: when the root is not an existing directory, \<^verbatim>\<open>pathlib_glob\<close> and \<^verbatim>\<open>pathlib_rglob\<close>
  return the empty collection, leave \<^verbatim>\<open>PATHLIB_NEXISTS\<close> in \<^verbatim>\<open>pathlib_error\<close>, and call
  \<^verbatim>\<open>opendir\<close> on nothing.
\<close>

theorem walk_non_directory_root:
  assumes "\<not> is_existing_dir path_max os path"
  shows "(\<exists>w'. pathlib_glob lc path_max os path pattern w = Some (empty_Paths, w')
            \<and> pathlib_error w' = PATHLIB_NEXISTS \<and> opendir_calls w' = opendir_calls w)
       \<and> (\<exists>w'. pathlib_rglob lc path_max os path pattern w = Some (empty_Paths, w')
            \<and> pathlib_error w' = PATHLIB_NEXISTS \<and> opendir_calls w' = opendir_calls w)"
  unfolding pathlib_glob_def pathlib_rglob_def
  using glob_body_no[OF assms] by blast

theorem walk_non_directory_root_witness:
  "\<not> is_existing_dir 4096 \<lparr>access_ok = False, stat_root = StatFails\<rparr> (pathlib_from_str ''missing'')
   \<and> (\<exists>w'. pathlib_glob (c_locale True) 4096 \<lparr>access_ok = False, stat_root = StatFails\<rparr>
               (pathlib_from_str ''missing'') ''*'' demo_world = Some (empty_Paths, w')
            \<and> pathlib_error w' = PATHLIB_NEXISTS \<and> opendir_calls w' = opendir_calls demo_world)
   \<and> (\<exists>w'. pathlib_rglob (c_locale True) 4096 \<lparr>access_ok = False, stat_root = StatFails\<rparr>
               (pathlib_from_str ''missing'') ''*'' demo_world = Some (empty_Paths, w')
            \<and> pathlib_error w' = PATHLIB_NEXISTS \<and> opendir_calls w' = opendir_calls demo_world)"
proof -
  have h: "\<not> is_existing_dir 4096 \<lparr>access_ok = False, stat_root = StatFails\<rparr> (pathlib_from_str ''missing'')"
    by (simp add: is_existing_dir_def)
  from walk_non_directory_root [OF h] h show ?thesis by blast
qed

















text \<open>
  C10: an entry that \<^verbatim>\<open>stat\<close> fails on changes nothing: the loop over the entries goes on
  as if the entry were not there, with the same results and the same \<^verbatim>\<open>pathlib_error\<close>. A
  walk in which every directory can be opened returns 1 and leaves \<^verbatim>\<open>pathlib_error\<close> as
  it found it, whatever \<^verbatim>\<open>stat\<close> did on its entries.
\<close>

theorem stat_failure_skips_entry:
  "readdir_loop lc path_max base_path pattern recursive ((d_name, StatFails) # entries) results w
     = readdir_loop lc path_max base_path pattern recursive entries results w
   \<and> ((\<forall>name. pathlib__fnmatch lc pattern name \<noteq> None) \<and> \<not> open_fails recursive ds \<longrightarrow>
        (\<exists>results' w'. pathlib__recursive_glob lc path_max base_path pattern recursive ds results w
                          = Some (True, results', w')
                        \<and> pathlib_error w' = pathlib_error w))"
  using walk_success(1)[of lc pattern recursive ds path_max base_path results w] by auto

theorem stat_failure_skips_entry_witness:
  "readdir_loop (c_locale True) 4096 ''root'' ''*'' True [(''gone'', StatFails), (''a.txt'', NonDir)]
      empty_Paths demo_world
     = Some (True, pathlib_paths_add empty_Paths (pathlib_from_str ''root/a.txt''), demo_world)
   \<and> \<not> open_fails True (Stream [(''gone'', StatFails), (''a.txt'', NonDir)] EndOfDirectory)
   \<and> (\<exists>results' w'. pathlib__recursive_glob (c_locale True) 4096 ''root'' ''*'' True
                        (Stream [(''gone'', StatFails), (''a.txt'', NonDir)] EndOfDirectory) empty_Paths demo_world
                          = Some (True, results', w')
                        \<and> pathlib_error w' = pathlib_error demo_world)"
proof -
  have s: "readdir_loop (c_locale True) 4096 ''root'' ''*'' True [(''a.txt'', NonDir)] empty_Paths demo_world
             = Some (True, pathlib_paths_add empty_Paths (pathlib_from_str ''root/a.txt''), demo_world)"
    by (simp add: fnmatch_star entry_fullpath_def)
  have nf: "\<not> open_fails True (Stream [(''gone'', StatFails), (''a.txt'', NonDir)] EndOfDirectory)" by simp
  from stat_failure_skips_entry [of "c_locale True" 4096 "''root''" "''*''" True "''gone''"
      "[(''a.txt'', NonDir)]" empty_Paths demo_world "Stream [(''gone'', StatFails), (''a.txt'', NonDir)] EndOfDirectory"]
  show ?thesis using s nf fnmatch_star_defined[of "c_locale True"] by simp
qed

end
